theory Spec2Isabelle
  imports Complex_Main
begin

section \<open>Finite-difference derivatives (finitediff.cpp)\<close>

text \<open>
  The C++ type \<open>double\<close> is modelled by \<^typ>\<open>real\<close>: all arithmetic below is exact, and
  rounding, infinities and NaN are outside the model.  An \<open>Eigen::VectorXd\<close> is a
  \<^typ>\<open>real list\<close>, indexed from 0.  The callback \<open>f\<close> is a HOL function; every call of
  it is recorded, in order, in a list of the arguments it was called with.
\<close>

subsection \<open>Stencil tables\<close>

text \<open>
  Modelled from the spec: the enumeration \<open>AccuracyOrder\<close> is declared in
  \<open>finitediff.hpp\<close>, which is not part of the sources.  The spec gives four orders
  (second, fourth, sixth, eighth), mapped to the stencil indices 0..3.
\<close>

datatype AccuracyOrder = Order2 | Order4 | Order6 | Order8

fun acc_index :: "AccuracyOrder \<Rightarrow> nat" where
  "acc_index Order2 = 0"
| "acc_index Order4 = 1"
| "acc_index Order6 = 2"
| "acc_index Order8 = 3"

text \<open>The external coefficients, c1, in c1 * f(x + c2).\<close>

definition coeff :: "real list list" where
  "coeff = [[1, -1], [1, -8, 8, -1], [-1, 9, -45, 45, -9, 1],
            [3, -32, 168, -672, 672, -168, 32, -3]]"

text \<open>The internal coefficients, c2, in c1 * f(x + c2).\<close>

definition coeff2 :: "real list list" where
  "coeff2 = [[1, -1], [-2, -1, 1, 2], [-3, -2, -1, 1, 2, 3],
             [-4, -3, -2, -1, 1, 2, 3, 4]]"

text \<open>The denominators of the finite difference.\<close>

definition dd :: "real list" where
  "dd = [2, 12, 60, 840]"

subsection \<open>Gradient\<close>

text \<open>
  \<open>grad.resize(n)\<close>: storage of the right size is kept as it is, otherwise it is
  reallocated.  Eigen leaves reallocated storage uninitialised; the model fills it with
  zeros.  Every entry is written before it is read, so the choice is not observable.
\<close>

definition resize_vec :: "nat \<Rightarrow> real list \<Rightarrow> real list" where
  "resize_vec n v = (if length v = n then v else replicate n 0)"

record grad_state =
  gs_xx :: "real list"
  gs_grad :: "real list"
  gs_calls :: "real list list"

text \<open>One pass of the loop over \<open>s\<close> (lines 43 to 45).\<close>

definition grad_inner ::
  "real list \<Rightarrow> (real list \<Rightarrow> real) \<Rightarrow> nat \<Rightarrow> real \<Rightarrow> nat \<Rightarrow> nat \<Rightarrow> grad_state \<Rightarrow> grad_state"
where
  "grad_inner x f accuracy eps d s st =
     (let xx1 = (gs_xx st)[d := gs_xx st ! d + coeff2 ! accuracy ! s * eps];
          fv = f xx1;
          grad1 = (gs_grad st)[d := gs_grad st ! d + coeff ! accuracy ! s * fv]
      in \<lparr>gs_xx = xx1[d := x ! d], gs_grad = grad1, gs_calls = gs_calls st @ [xx1]\<rparr>)"

text \<open>One pass of the loop over \<open>d\<close> (lines 41 to 47).\<close>

definition grad_outer ::
  "real list \<Rightarrow> (real list \<Rightarrow> real) \<Rightarrow> nat \<Rightarrow> real \<Rightarrow> nat \<Rightarrow> real \<Rightarrow> nat \<Rightarrow> grad_state \<Rightarrow> grad_state"
where
  "grad_outer x f accuracy eps innerSteps ddVal d st =
     (let st0 = st\<lparr>gs_grad := (gs_grad st)[d := 0]\<rparr>;
          st1 = fold (grad_inner x f accuracy eps d) [0..<innerSteps] st0
      in st1\<lparr>gs_grad := (gs_grad st1)[d := gs_grad st1 ! d / ddVal]\<rparr>)"

text \<open>
  The whole function, returning the final local state: the working copy \<open>xx\<close>, the
  output \<open>grad\<close> and the arguments of the calls of \<open>f\<close>.  \<open>grad0\<close> is the content of the
  output parameter at entry.  The point \<open>x\<close> is a reference to \<open>const\<close>, which the function
  never assigns, and the output parameter is taken to be another object than \<open>x\<close>: so \<open>x\<close>
  is an argument of the model that no state contains.
\<close>

definition finite_gradient_run ::
  "real list \<Rightarrow> (real list \<Rightarrow> real) \<Rightarrow> real list \<Rightarrow> AccuracyOrder \<Rightarrow> real \<Rightarrow> grad_state"
where
  "finite_gradient_run x f grad0 accuracy eps =
     (let grad = resize_vec (length x) grad0;
          innerSteps = 2 * (acc_index accuracy + 1);
          ddVal = dd ! acc_index accuracy * eps;
          xx = x
      in fold (grad_outer x f (acc_index accuracy) eps innerSteps ddVal) [0..<length x]
           \<lparr>gs_xx = xx, gs_grad = grad, gs_calls = []\<rparr>)"

definition finite_gradient ::
  "real list \<Rightarrow> (real list \<Rightarrow> real) \<Rightarrow> real list \<Rightarrow> AccuracyOrder \<Rightarrow> real \<Rightarrow> real list"
where
  "finite_gradient x f grad0 accuracy eps = gs_grad (finite_gradient_run x f grad0 accuracy eps)"

definition finite_gradient_calls ::
  "real list \<Rightarrow> (real list \<Rightarrow> real) \<Rightarrow> real list \<Rightarrow> AccuracyOrder \<Rightarrow> real \<Rightarrow> real list list"
where
  "finite_gradient_calls x f grad0 accuracy eps =
     gs_calls (finite_gradient_run x f grad0 accuracy eps)"

subsection \<open>Hessian\<close>

text \<open>
  An \<open>Eigen::MatrixXd\<close> is its number of rows, its number of columns and its
  coefficient accessor \<open>m(i, j)\<close>.  Coefficients outside the shape are not part of the
  matrix; the operations below never look at them.
\<close>

record matrix =
  mrows :: nat
  mcols :: nat
  mcoeff :: "nat \<Rightarrow> nat \<Rightarrow> real"

text \<open>
  \<open>m.resize(r, c)\<close>: a matrix of that shape is kept as it is; otherwise the storage is
  new, and its content (uninitialised in Eigen) is modelled by zeros.
\<close>

definition resize_mat :: "nat \<Rightarrow> nat \<Rightarrow> matrix \<Rightarrow> matrix" where
  "resize_mat r c m =
     (if mrows m = r \<and> mcols m = c then m
      else \<lparr>mrows = r, mcols = c, mcoeff = (\<lambda>_ _. 0)\<rparr>)"

text \<open>The assignment \<open>m(i, j) = v\<close>.\<close>

definition mat_set :: "matrix \<Rightarrow> nat \<Rightarrow> nat \<Rightarrow> real \<Rightarrow> matrix" where
  "mat_set m i j v = m\<lparr>mcoeff := (\<lambda>a b. if a = i \<and> b = j then v else mcoeff m a b)\<rparr>"

record hess_state =
  hs_xx :: "real list"
  hs_hess :: matrix
  hs_calls :: "real list list"

text \<open>The body of the loop over \<open>j\<close> (lines 100 to 112).\<close>

definition hess_body ::
  "real list \<Rightarrow> (real list \<Rightarrow> real) \<Rightarrow> real \<Rightarrow> nat \<Rightarrow> nat \<Rightarrow> hess_state \<Rightarrow> hess_state"
where
  "hess_body x f eps i j st =
     (let xx0 = hs_xx st;
          f4 = f xx0;
          xx1 = xx0[i := xx0 ! i + eps];
          xx2 = xx1[j := xx1 ! j + eps];
          f1 = f xx2;
          xx3 = xx2[j := xx2 ! j - eps];
          f2 = f xx3;
          xx4 = xx3[j := xx3 ! j + eps];
          xx5 = xx4[i := xx4 ! i - eps];
          f3 = f xx5;
          hess1 = mat_set (hs_hess st) i j ((f1 - f2 - f3 + f4) / (eps * eps));
          xx6 = xx5[i := x ! i];
          xx7 = xx6[j := x ! j]
      in \<lparr>hs_xx = xx7, hs_hess = hess1, hs_calls = hs_calls st @ [xx0, xx2, xx3, xx5]\<rparr>)"

definition finite_hessian_run ::
  "real list \<Rightarrow> (real list \<Rightarrow> real) \<Rightarrow> matrix \<Rightarrow> real \<Rightarrow> hess_state"
where
  "finite_hessian_run x f hess0 eps =
     (let hess = resize_mat (length x) (length x) hess0;
          xx = x
      in fold (\<lambda>i. fold (hess_body x f eps i) [0..<length x]) [0..<length x]
           \<lparr>hs_xx = xx, hs_hess = hess, hs_calls = []\<rparr>)"

definition finite_hessian :: "real list \<Rightarrow> (real list \<Rightarrow> real) \<Rightarrow> matrix \<Rightarrow> real \<Rightarrow> matrix" where
  "finite_hessian x f hess0 eps = hs_hess (finite_hessian_run x f hess0 eps)"


subsection \<open>Failures\<close>

text \<open>
  Ways in which a call does not return normally.  \<open>AssertionFailed\<close> is a failed
  \<open>assert\<close> of the source.  \<open>SizeMismatch\<close> is an Eigen expression whose operands have
  different sizes, and \<open>OutOfRange\<close> a coefficient access outside the shape of its
  operand: Eigen checks neither when its assertions are compiled out, and the behaviour
  is then undefined.
\<close>

datatype error = AssertionFailed | SizeMismatch | OutOfRange

text \<open>A counted loop whose body may fail: the first failure ends the loop.\<close>

fun for_loop :: "nat list \<Rightarrow> (nat \<Rightarrow> 's \<Rightarrow> error + 's) \<Rightarrow> 's \<Rightarrow> error + 's" where
  "for_loop [] body st = Inr st"
| "for_loop (i # is) body st =
     (case body i st of Inl e \<Rightarrow> Inl e | Inr st' \<Rightarrow> for_loop is body st')"

subsection \<open>Jacobian\<close>










subsection \<open>Comparison\<close>

text \<open>
  A record passed to \<open>spdlog::debug\<close>.  The two relative differences of the message are
  quotients of the fields below and are not stored.
\<close>

record diagnostic =
  dg_msg :: string
  dg_eps :: real
  dg_row :: nat
  dg_col :: "nat option"
  dg_x :: real
  dg_y :: real
  dg_abs_diff :: real

record cmp_state =
  cs_same :: bool
  cs_log :: "diagnostic list"

text \<open>
  The body of the loop of \<open>compare_gradient\<close> (lines 128 to 138).  The loop runs over the
  rows of \<open>x\<close>, so only the access to \<open>y\<close> can be out of range.  The unqualified \<open>abs\<close> is
  taken to be the overload for \<open>double\<close>.
\<close>

definition compare_gradient_body ::
  "real list \<Rightarrow> real list \<Rightarrow> real \<Rightarrow> string \<Rightarrow> nat \<Rightarrow> cmp_state \<Rightarrow> error + cmp_state"
where
  "compare_gradient_body x y test_eps msg d st =
     (if length y \<le> d then Inl OutOfRange
      else
        let scale = max (max \<bar>x ! d\<bar> \<bar>y ! d\<bar>) 1;
            abs_diff = \<bar>x ! d - y ! d\<bar>
        in if abs_diff > test_eps * scale
           then Inr \<lparr>cs_same = False,
                     cs_log = cs_log st @
                       [\<lparr>dg_msg = msg, dg_eps = test_eps, dg_row = d, dg_col = None,
                         dg_x = x ! d, dg_y = y ! d, dg_abs_diff = abs_diff\<rparr>]\<rparr>
           else Inr st)"

text \<open>
  \<open>assert\<close> is the macro of \<open><cassert>\<close>: it ends the program when its condition is
  false, unless \<open>NDEBUG\<close> is defined, in which case it expands to nothing.  The
  parameter \<open>ndebug\<close> says whether \<open>NDEBUG\<close> is defined in the build.
\<close>

definition compare_gradient ::
  "bool \<Rightarrow> real list \<Rightarrow> real list \<Rightarrow> real \<Rightarrow> string \<Rightarrow> error + cmp_state"
where
  "compare_gradient ndebug x y test_eps msg =
     (if \<not> ndebug \<and> length x \<noteq> length y then Inl AssertionFailed
      else for_loop [0..<length x] (compare_gradient_body x y test_eps msg)
             \<lparr>cs_same = True, cs_log = []\<rparr>)"

text \<open>The body of the inner loop of \<open>compare_jacobian\<close> (lines 156 to 168).\<close>

definition compare_jacobian_body ::
  "matrix \<Rightarrow> matrix \<Rightarrow> real \<Rightarrow> string \<Rightarrow> nat \<Rightarrow> nat \<Rightarrow> cmp_state \<Rightarrow> error + cmp_state"
where
  "compare_jacobian_body x y test_eps msg d c st =
     (if mrows y \<le> d \<or> mcols y \<le> c then Inl OutOfRange
      else
        let scale = max (max \<bar>mcoeff x d c\<bar> \<bar>mcoeff y d c\<bar>) 1;
            abs_diff = \<bar>mcoeff x d c - mcoeff y d c\<bar>
        in if abs_diff > test_eps * scale
           then Inr \<lparr>cs_same = False,
                     cs_log = cs_log st @
                       [\<lparr>dg_msg = msg, dg_eps = test_eps, dg_row = d, dg_col = Some c,
                         dg_x = mcoeff x d c, dg_y = mcoeff y d c, dg_abs_diff = abs_diff\<rparr>]\<rparr>
           else Inr st)"

definition compare_jacobian ::
  "bool \<Rightarrow> matrix \<Rightarrow> matrix \<Rightarrow> real \<Rightarrow> string \<Rightarrow> error + cmp_state"
where
  "compare_jacobian ndebug x y test_eps msg =
     (if \<not> ndebug \<and> mrows x \<noteq> mrows y then Inl AssertionFailed
      else if \<not> ndebug \<and> mcols x \<noteq> mcols y then Inl AssertionFailed
      else for_loop [0..<mrows x]
             (\<lambda>d. for_loop [0..<mcols x] (compare_jacobian_body x y test_eps msg d))
             \<lparr>cs_same = True, cs_log = []\<rparr>)"

definition compare_hessian ::
  "bool \<Rightarrow> matrix \<Rightarrow> matrix \<Rightarrow> real \<Rightarrow> string \<Rightarrow> error + cmp_state"
where
  "compare_hessian ndebug x y test_eps msg = compare_jacobian ndebug x y test_eps msg"

subsection \<open>Notions used in the statements\<close>

text \<open>The point at which stencil position \<open>s\<close> of dimension \<open>d\<close> evaluates \<open>f\<close>.\<close>

definition stencil_point :: "real list \<Rightarrow> nat \<Rightarrow> real \<Rightarrow> nat \<Rightarrow> nat \<Rightarrow> real list" where
  "stencil_point x accuracy eps d s = x[d := x ! d + coeff2 ! accuracy ! s * eps]"

text \<open>\<open>shift x i e\<close> is the point \<open>x + e * e\<^sub>i\<close>.\<close>

definition shift :: "real list \<Rightarrow> nat \<Rightarrow> real \<Rightarrow> real list" where
  "shift x i e = x[i := x ! i + e]"

definition mixed_difference :: "real list \<Rightarrow> (real list \<Rightarrow> real) \<Rightarrow> real \<Rightarrow> nat \<Rightarrow> nat \<Rightarrow> real" where
  "mixed_difference x f eps i j =
     (f (shift (shift x i eps) j eps) - f (shift x i eps) - f (shift x j eps) + f x) / (eps * eps)"

definition hess_points :: "real list \<Rightarrow> real \<Rightarrow> nat \<Rightarrow> nat \<Rightarrow> real list list" where
  "hess_points x eps i j = [x, shift (shift x i eps) j eps, shift x i eps, shift x j eps]"


text \<open>The coordinates in which the point \<open>p\<close> differs from \<open>x\<close>.\<close>

definition differing_coords :: "real list \<Rightarrow> real list \<Rightarrow> nat list" where
  "differing_coords x p = filter (\<lambda>i. p ! i \<noteq> x ! i) [0..<length x]"

text \<open>The test function \<open>f(x) = sum(x_i^2)\<close>, and the matrix without rows and columns.\<close>

fun sum_squares :: "real list \<Rightarrow> real" where
  "sum_squares [] = 0"
| "sum_squares (t # ts) = t * t + sum_squares ts"

definition mat_empty :: matrix where
  "mat_empty = \<lparr>mrows = 0, mcols = 0, mcoeff = (\<lambda>_ _. 0)\<rparr>"

text \<open>The matrix with the given rows.\<close>

definition mat_of_rows :: "real list list \<Rightarrow> matrix" where
  "mat_of_rows rs =
     \<lparr>mrows = length rs,
      mcols = (case rs of [] \<Rightarrow> 0 | r # _ \<Rightarrow> length r),
      mcoeff = (\<lambda>i j. rs ! i ! j)\<rparr>"

section \<open>Properties\<close>

subsection \<open>Loop invariants\<close>

lemma grad_inner_fold:
  assumes "gs_xx st = x" and "d < length x" and "length (gs_grad st) = length x"
  shows "fold (grad_inner x f accuracy eps d) [0..<k] st =
         \<lparr>gs_xx = x,
          gs_grad = (gs_grad st)[d := gs_grad st ! d +
                      (\<Sum>s<k. coeff ! accuracy ! s * f (stencil_point x accuracy eps d s))],
          gs_calls = gs_calls st @ map (stencil_point x accuracy eps d) [0..<k]\<rparr>"
proof (induction k)
  case 0
  show ?case using assms by simp
next
  case (Suc k)
  have "fold (grad_inner x f accuracy eps d) [0..<Suc k] st =
        grad_inner x f accuracy eps d k (fold (grad_inner x f accuracy eps d) [0..<k] st)"
    by simp
  also have "\<dots> = grad_inner x f accuracy eps d k
        \<lparr>gs_xx = x,
         gs_grad = (gs_grad st)[d := gs_grad st ! d +
                     (\<Sum>s<k. coeff ! accuracy ! s * f (stencil_point x accuracy eps d s))],
         gs_calls = gs_calls st @ map (stencil_point x accuracy eps d) [0..<k]\<rparr>"
    by (simp only: Suc)
  also have "\<dots> = \<lparr>gs_xx = x,
          gs_grad = (gs_grad st)[d := gs_grad st ! d +
                      (\<Sum>s<Suc k. coeff ! accuracy ! s * f (stencil_point x accuracy eps d s))],
          gs_calls = gs_calls st @ map (stencil_point x accuracy eps d) [0..<Suc k]\<rparr>"
    using assms by (simp add: grad_inner_def stencil_point_def Let_def add.assoc)
  finally show ?case .
qed

lemma grad_outer_step:
  assumes "gs_xx st = x" and "d < length x" and "length (gs_grad st) = length x"
  shows "grad_outer x f accuracy eps innerSteps ddVal d st =
         \<lparr>gs_xx = x,
          gs_grad = (gs_grad st)[d :=
            (\<Sum>s<innerSteps. coeff ! accuracy ! s * f (stencil_point x accuracy eps d s)) / ddVal],
          gs_calls = gs_calls st @ map (stencil_point x accuracy eps d) [0..<innerSteps]\<rparr>"
proof -
  let ?st0 = "st\<lparr>gs_grad := (gs_grad st)[d := 0]\<rparr>"
  have "gs_xx ?st0 = x" "length (gs_grad ?st0) = length x"
    using assms by simp_all
  from grad_inner_fold [OF this(1) assms(2) this(2)] assms
  show ?thesis
    by (simp add: grad_outer_def Let_def)
qed

lemma grad_outer_fold:
  assumes "k \<le> length x" and "length g = length x"
  shows "fold (grad_outer x f accuracy eps innerSteps ddVal) [0..<k]
           \<lparr>gs_xx = x, gs_grad = g, gs_calls = []\<rparr> =
         \<lparr>gs_xx = x,
          gs_grad = map (\<lambda>d. if d < k
            then (\<Sum>s<innerSteps. coeff ! accuracy ! s * f (stencil_point x accuracy eps d s)) / ddVal
            else g ! d) [0..<length x],
          gs_calls = concat (map (\<lambda>d. map (stencil_point x accuracy eps d) [0..<innerSteps]) [0..<k])\<rparr>"
  using assms(1)
proof (induction k)
  case 0
  have "map ((!) g) [0..<length x] = g"
    using assms(2) map_nth [of g] by simp
  then show ?case by simp
next
  case (Suc k)
  let ?S = "\<lambda>d. (\<Sum>s<innerSteps. coeff ! accuracy ! s * f (stencil_point x accuracy eps d s)) / ddVal"
  let ?st = "\<lparr>gs_xx = x, gs_grad = map (\<lambda>d. if d < k then ?S d else g ! d) [0..<length x],
          gs_calls = concat (map (\<lambda>d. map (stencil_point x accuracy eps d) [0..<innerSteps]) [0..<k])\<rparr>"
  have k: "k < length x" using Suc.prems by simp
  have upd: "(map (\<lambda>d. if d < k then ?S d else g ! d) [0..<length x])[k := ?S k] =
             map (\<lambda>d. if d < Suc k then ?S d else g ! d) [0..<length x]"
    by (rule nth_equalityI) (auto simp: nth_list_update less_Suc_eq)
  have "fold (grad_outer x f accuracy eps innerSteps ddVal) [0..<Suc k]
          \<lparr>gs_xx = x, gs_grad = g, gs_calls = []\<rparr> =
        grad_outer x f accuracy eps innerSteps ddVal k
          (fold (grad_outer x f accuracy eps innerSteps ddVal) [0..<k]
             \<lparr>gs_xx = x, gs_grad = g, gs_calls = []\<rparr>)"
    by simp
  also have "\<dots> = grad_outer x f accuracy eps innerSteps ddVal k ?st"
    using Suc.IH k by simp
  also have "\<dots> = \<lparr>gs_xx = x,
          gs_grad = (gs_grad ?st)[k := ?S k],
          gs_calls = gs_calls ?st @ map (stencil_point x accuracy eps k) [0..<innerSteps]\<rparr>"
    by (rule grad_outer_step) (use k in simp_all)
  also have "\<dots> = \<lparr>gs_xx = x,
          gs_grad = map (\<lambda>d. if d < Suc k then ?S d else g ! d) [0..<length x],
          gs_calls = concat (map (\<lambda>d. map (stencil_point x accuracy eps d) [0..<innerSteps])
                       [0..<Suc k])\<rparr>"
    using upd by simp
  finally show ?case .
qed

lemma finite_gradient_run_eq:
  "finite_gradient_run x f grad0 accuracy eps =
     \<lparr>gs_xx = x,
      gs_grad = map (\<lambda>d.
         (\<Sum>s<2 * (acc_index accuracy + 1).
            coeff ! acc_index accuracy ! s * f (stencil_point x (acc_index accuracy) eps d s))
         / (dd ! acc_index accuracy * eps)) [0..<length x],
      gs_calls = concat (map (\<lambda>d. map (stencil_point x (acc_index accuracy) eps d)
                   [0..<2 * (acc_index accuracy + 1)]) [0..<length x])\<rparr>"
proof -
  have len: "length (resize_vec (length x) grad0) = length x"
    by (simp add: resize_vec_def)
  have "finite_gradient_run x f grad0 accuracy eps =
        fold (grad_outer x f (acc_index accuracy) eps (2 * (acc_index accuracy + 1))
                (dd ! acc_index accuracy * eps)) [0..<length x]
          \<lparr>gs_xx = x, gs_grad = resize_vec (length x) grad0, gs_calls = []\<rparr>"
    by (simp add: finite_gradient_run_def Let_def)
  also note grad_outer_fold [OF order_refl len]
  finally show ?thesis by simp
qed

lemma shift_shift_back:
  assumes "i < length x" and "j < length x"
  shows "(shift (shift x i eps) j eps)[j := shift (shift x i eps) j eps ! j - eps] = shift x i eps"
proof (cases "i = j")
  case True
  then show ?thesis using assms by (simp add: shift_def algebra_simps)
next
  case False
  have "(shift (shift x i eps) j eps)[j := shift (shift x i eps) j eps ! j - eps] =
        (x[i := x ! i + eps])[j := x ! j]"
    using False assms by (simp add: shift_def)
  also have "\<dots> = (x[j := x ! j])[i := x ! i + eps]"
    using False by (simp add: list_update_swap)
  finally show ?thesis by (simp add: shift_def)
qed

lemma shift_back_other:
  assumes "i < length x" and "j < length x"
  shows "(shift (shift x i eps) j eps)[i := shift (shift x i eps) j eps ! i - eps] = shift x j eps"
proof (cases "i = j")
  case True
  then show ?thesis using assms by (simp add: shift_def algebra_simps)
next
  case False
  have "(shift (shift x i eps) j eps)[i := shift (shift x i eps) j eps ! i - eps] =
        ((x[i := x ! i + eps])[j := x ! j + eps])[i := x ! i]"
    using False assms by (simp add: shift_def)
  also have "\<dots> = ((x[j := x ! j + eps])[i := x ! i + eps])[i := x ! i]"
    using False by (simp add: list_update_swap)
  also have "\<dots> = (x[j := x ! j + eps])[i := (x[j := x ! j + eps]) ! i]"
    using False by simp
  finally show ?thesis by (simp add: shift_def)
qed

lemma shift_restore:
  "(shift x j eps)[i := x ! i, j := x ! j] = x"
proof (cases "i = j")
  case True
  then show ?thesis by (simp add: shift_def)
next
  case False
  have "(shift x j eps)[i := x ! i, j := x ! j] = (x[j := x ! j + eps, j := x ! j])[i := x ! i]"
    using False by (simp add: shift_def list_update_swap)
  then show ?thesis by simp
qed

lemma hess_body_step:
  assumes "hs_xx st = x" and "i < length x" and "j < length x"
  shows "hess_body x f eps i j st =
         \<lparr>hs_xx = x,
          hs_hess = mat_set (hs_hess st) i j (mixed_difference x f eps i j),
          hs_calls = hs_calls st @ hess_points x eps i j\<rparr>"
proof -
  define xx1 where "xx1 = x[i := x ! i + eps]"
  define xx2 where "xx2 = xx1[j := xx1 ! j + eps]"
  define xx3 where "xx3 = xx2[j := xx2 ! j - eps]"
  define xx4 where "xx4 = xx3[j := xx3 ! j + eps]"
  define xx5 where "xx5 = xx4[i := xx4 ! i - eps]"
  define xx7 where "xx7 = xx5[i := x ! i, j := x ! j]"
  have e1: "xx1 = shift x i eps"
    by (simp add: xx1_def shift_def)
  have e2: "xx2 = shift (shift x i eps) j eps"
    by (simp add: xx2_def e1 shift_def)
  have e3: "xx3 = shift x i eps"
    unfolding xx3_def e2 by (rule shift_shift_back [OF assms(2,3)])
  have e4: "xx4 = shift (shift x i eps) j eps"
    by (simp add: xx4_def e3 shift_def)
  have e5: "xx5 = shift x j eps"
    unfolding xx5_def e4 by (rule shift_back_other [OF assms(2,3)])
  have e7: "xx7 = x"
    unfolding xx7_def e5 by (rule shift_restore)
  have "hess_body x f eps i j st =
        \<lparr>hs_xx = xx7,
         hs_hess = mat_set (hs_hess st) i j ((f xx2 - f xx3 - f xx5 + f x) / (eps * eps)),
         hs_calls = hs_calls st @ [x, xx2, xx3, xx5]\<rparr>"
    by (simp add: hess_body_def Let_def assms(1) xx1_def xx2_def xx3_def xx4_def xx5_def xx7_def)
  then show ?thesis
    by (simp add: e2 e3 e5 e7 mixed_difference_def hess_points_def)
qed

lemma hess_inner_fold:
  assumes "i < length x" and "k \<le> length x"
  shows "fold (hess_body x f eps i) [0..<k] \<lparr>hs_xx = x, hs_hess = H, hs_calls = cs\<rparr> =
         \<lparr>hs_xx = x,
          hs_hess = H\<lparr>mcoeff := (\<lambda>a b. if a = i \<and> b < k then mixed_difference x f eps a b
                                        else mcoeff H a b)\<rparr>,
          hs_calls = cs @ concat (map (hess_points x eps i) [0..<k])\<rparr>"
  using assms(2)
proof (induction k)
  case 0
  show ?case by simp
next
  case (Suc k)
  let ?H = "H\<lparr>mcoeff := (\<lambda>a b. if a = i \<and> b < k then mixed_difference x f eps a b
                                        else mcoeff H a b)\<rparr>"
  let ?st = "\<lparr>hs_xx = x, hs_hess = ?H, hs_calls = cs @ concat (map (hess_points x eps i) [0..<k])\<rparr>"
  have k: "k < length x" using Suc.prems by simp
  have "fold (hess_body x f eps i) [0..<Suc k] \<lparr>hs_xx = x, hs_hess = H, hs_calls = cs\<rparr> =
        hess_body x f eps i k
          (fold (hess_body x f eps i) [0..<k] \<lparr>hs_xx = x, hs_hess = H, hs_calls = cs\<rparr>)"
    by simp
  also have "\<dots> = hess_body x f eps i k ?st"
    using Suc.IH k by simp
  also have "\<dots> = \<lparr>hs_xx = x,
          hs_hess = mat_set (hs_hess ?st) i k (mixed_difference x f eps i k),
          hs_calls = hs_calls ?st @ hess_points x eps i k\<rparr>"
    by (rule hess_body_step) (use k assms(1) in simp_all)
  also have "mat_set (hs_hess ?st) i k (mixed_difference x f eps i k) =
        H\<lparr>mcoeff := (\<lambda>a b. if a = i \<and> b < Suc k then mixed_difference x f eps a b
                                        else mcoeff H a b)\<rparr>"
    by (auto simp: mat_set_def fun_eq_iff less_Suc_eq)
  finally show ?case by simp
qed

lemma hess_outer_fold:
  assumes "k \<le> length x"
  shows "fold (\<lambda>i. fold (hess_body x f eps i) [0..<length x]) [0..<k]
           \<lparr>hs_xx = x, hs_hess = H, hs_calls = []\<rparr> =
         \<lparr>hs_xx = x,
          hs_hess = H\<lparr>mcoeff := (\<lambda>a b. if a < k \<and> b < length x then mixed_difference x f eps a b
                                        else mcoeff H a b)\<rparr>,
          hs_calls = concat (map (\<lambda>i. concat (map (hess_points x eps i) [0..<length x])) [0..<k])\<rparr>"
  using assms
proof (induction k)
  case 0
  show ?case by simp
next
  case (Suc k)
  let ?H = "H\<lparr>mcoeff := (\<lambda>a b. if a < k \<and> b < length x then mixed_difference x f eps a b
                                        else mcoeff H a b)\<rparr>"
  let ?cs = "concat (map (\<lambda>i. concat (map (hess_points x eps i) [0..<length x])) [0..<k])"
  have k: "k < length x" using Suc.prems by simp
  have "fold (\<lambda>i. fold (hess_body x f eps i) [0..<length x]) [0..<Suc k]
           \<lparr>hs_xx = x, hs_hess = H, hs_calls = []\<rparr> =
        fold (hess_body x f eps k) [0..<length x]
          (fold (\<lambda>i. fold (hess_body x f eps i) [0..<length x]) [0..<k]
             \<lparr>hs_xx = x, hs_hess = H, hs_calls = []\<rparr>)"
    by simp
  also have "\<dots> = fold (hess_body x f eps k) [0..<length x]
          \<lparr>hs_xx = x, hs_hess = ?H, hs_calls = ?cs\<rparr>"
    using Suc.IH k by simp
  also have "\<dots> = \<lparr>hs_xx = x,
          hs_hess = ?H\<lparr>mcoeff := (\<lambda>a b. if a = k \<and> b < length x then mixed_difference x f eps a b
                                        else mcoeff ?H a b)\<rparr>,
          hs_calls = ?cs @ concat (map (hess_points x eps k) [0..<length x])\<rparr>"
    by (rule hess_inner_fold [OF k order_refl])
  also have "?H\<lparr>mcoeff := (\<lambda>a b. if a = k \<and> b < length x then mixed_difference x f eps a b
                                        else mcoeff ?H a b)\<rparr> =
        H\<lparr>mcoeff := (\<lambda>a b. if a < Suc k \<and> b < length x then mixed_difference x f eps a b
                                        else mcoeff H a b)\<rparr>"
    by (auto simp: fun_eq_iff less_Suc_eq)
  finally show ?case by simp
qed

lemma finite_hessian_run_eq:
  "finite_hessian_run x f hess0 eps =
     \<lparr>hs_xx = x,
      hs_hess = \<lparr>mrows = length x, mcols = length x,
                 mcoeff = (\<lambda>a b. if a < length x \<and> b < length x then mixed_difference x f eps a b
                                  else mcoeff (resize_mat (length x) (length x) hess0) a b)\<rparr>,
      hs_calls = concat (map (\<lambda>i. concat (map (hess_points x eps i) [0..<length x]))
                   [0..<length x])\<rparr>"
proof -
  have "mrows (resize_mat (length x) (length x) hess0) = length x"
       "mcols (resize_mat (length x) (length x) hess0) = length x"
    by (simp_all add: resize_mat_def)
  then show ?thesis
    unfolding finite_hessian_run_def Let_def hess_outer_fold [OF order_refl]
    by simp
qed

lemma for_loop_append:
  "for_loop (xs @ ys) body st =
     (case for_loop xs body st of Inl e \<Rightarrow> Inl e | Inr st' \<Rightarrow> for_loop ys body st')"
  by (induction xs arbitrary: st) (auto split: sum.splits)

lemma for_loop_Suc:
  "for_loop [0..<Suc k] body st =
     (case for_loop [0..<k] body st of Inl e \<Rightarrow> Inl e | Inr st' \<Rightarrow> body k st')"
  by (simp add: for_loop_append split: sum.splits)





lemma compare_gradient_body_far:
  assumes "d < length y" and "test_eps * max (max \<bar>x ! d\<bar> \<bar>y ! d\<bar>) 1 < \<bar>x ! d - y ! d\<bar>"
  shows "\<exists>st'. compare_gradient_body x y test_eps msg d st = Inr st' \<and> \<not> cs_same st'"
  using assms unfolding compare_gradient_body_def Let_def by simp

lemma compare_gradient_body_close:
  assumes "d < length y" and "\<not> test_eps * max (max \<bar>x ! d\<bar> \<bar>y ! d\<bar>) 1 < \<bar>x ! d - y ! d\<bar>"
  shows "compare_gradient_body x y test_eps msg d st = Inr st"
  using assms unfolding compare_gradient_body_def Let_def by simp

lemma compare_gradient_loop:
  assumes "k \<le> length y"
  shows "\<exists>st'. for_loop [0..<k] (compare_gradient_body x y test_eps msg) st = Inr st' \<and>
           cs_same st' = (cs_same st \<and>
             (\<forall>d<k. \<bar>x ! d - y ! d\<bar> \<le> test_eps * max (max \<bar>x ! d\<bar> \<bar>y ! d\<bar>) 1))"
  using assms
proof (induction k)
  case 0
  show ?case by simp
next
  case (Suc k)
  define far where "far d \<longleftrightarrow> test_eps * max (max \<bar>x ! d\<bar> \<bar>y ! d\<bar>) 1 < \<bar>x ! d - y ! d\<bar>" for d
  have le_far: "\<bar>x ! d - y ! d\<bar> \<le> test_eps * max (max \<bar>x ! d\<bar> \<bar>y ! d\<bar>) 1 \<longleftrightarrow> \<not> far d" for d
    unfolding far_def by (rule not_less [symmetric])
  from Suc obtain st1 where
    run: "for_loop [0..<k] (compare_gradient_body x y test_eps msg) st = Inr st1" and
    same: "cs_same st1 = (cs_same st \<and> (\<forall>d<k. \<not> far d))"
    unfolding le_far by auto
  have k: "k < length y" using Suc.prems by simp
  have step: "for_loop [0..<Suc k] (compare_gradient_body x y test_eps msg) st =
              compare_gradient_body x y test_eps msg k st1"
    by (simp only: for_loop_Suc run sum.case)
  show ?case
  proof (cases "far k")
    case True
    from compare_gradient_body_far [OF k True [unfolded far_def], of msg st1]
    obtain st2 where "compare_gradient_body x y test_eps msg k st1 = Inr st2" "\<not> cs_same st2"
      by blast
    moreover have "\<not> (cs_same st \<and> (\<forall>d<Suc k. \<not> far d))"
      using True by blast
    ultimately show ?thesis
      unfolding step le_far by blast
  next
    case False
    have "compare_gradient_body x y test_eps msg k st1 = Inr st1"
      by (rule compare_gradient_body_close [OF k False [unfolded far_def]])
    moreover have "cs_same st1 = (cs_same st \<and> (\<forall>d<Suc k. \<not> far d))"
      using same False by (auto simp: less_Suc_eq)
    ultimately show ?thesis
      unfolding step le_far by blast
  qed
qed





subsection \<open>Facts about the tables and the evaluation points\<close>

lemma coeff_length: "length (coeff ! acc_index a) = 2 * (acc_index a + 1)"
  by (cases a) (simp_all add: coeff_def)






lemma length_concat_map_const:
  assumes "\<And>d. length (g d) = m"
  shows "length (concat (map g [0..<n])) = n * m"
  by (induction n) (simp_all add: assms)

lemma filter_at_most_one:
  assumes "distinct xs" and "\<And>i. i \<in> set xs \<Longrightarrow> P i \<Longrightarrow> i = d"
  shows "length (filter P xs) \<le> 1"
proof -
  have "distinct (filter P xs)" using assms(1) by simp
  then have "length (filter P xs) = card (set (filter P xs))"
    by (rule distinct_card [symmetric])
  also have "\<dots> \<le> card {d}"
    by (rule card_mono) (use assms(2) in auto)
  finally show ?thesis by simp
qed





subsection \<open>The gradient\<close>

text \<open>
  Claim C1.  For a point \<open>x\<close> of length \<open>n\<close>, a function \<open>f\<close>, each of the four accuracy
  orders and a step \<open>eps\<close> other than 0, \<open>finite_gradient\<close> returns a vector of length \<open>n\<close>
  whose entry \<open>d\<close> is the sum, over all stencil positions \<open>s\<close>, of
  \<open>coeff[a][s] * f(x with x[d] replaced by x[d] + coeff2[a][s] * eps)\<close>, divided by
  \<open>dd[a] * eps\<close>.  The result does not depend on the content of the output parameter at
  entry.
\<close>

theorem finite_gradient_correct:
  assumes "eps \<noteq> 0"
  shows "length (finite_gradient x f grad0 accuracy eps) = length x \<and>
         (\<forall>d<length x. finite_gradient x f grad0 accuracy eps ! d =
            (\<Sum>s<length (coeff ! acc_index accuracy).
               coeff ! acc_index accuracy ! s *
               f (x[d := x ! d + coeff2 ! acc_index accuracy ! s * eps]))
            / (dd ! acc_index accuracy * eps))"
  by (simp add: finite_gradient_def finite_gradient_run_eq coeff_length stencil_point_def)

theorem finite_gradient_correct_witness:
  "(1 / 2 :: real) \<noteq> 0 \<and>
   length (finite_gradient [1, 2] sum_squares [] Order2 (1 / 2)) = 2 \<and>
   finite_gradient [1, 2] sum_squares [] Order2 (1 / 2) ! 0 = 2 \<and>
   finite_gradient [1, 2] sum_squares [] Order2 (1 / 2) ! 1 = 4"
proof -
  have h: "(1 / 2 :: real) \<noteq> 0" by simp
  note T = finite_gradient_correct [OF h, of "[1, 2]" sum_squares "[]" Order2]
  have len: "length (finite_gradient [1, 2] sum_squares [] Order2 (1 / 2)) = 2"
    using T [THEN conjunct1] by simp
  have "finite_gradient [1, 2] sum_squares [] Order2 (1 / 2) ! 0 = 2"
    using T [THEN conjunct2, rule_format, of 0] by (simp add: coeff_def coeff2_def dd_def)
  moreover have "finite_gradient [1, 2] sum_squares [] Order2 (1 / 2) ! 1 = 4"
    using T [THEN conjunct2, rule_format, of 1] by (simp add: coeff_def coeff2_def dd_def)
  ultimately show ?thesis using len by simp
qed

text \<open>
  Claim C6.  In a call of \<open>finite_gradient\<close> with a point of length \<open>n\<close>, accuracy index
  \<open>a\<close> and \<open>eps\<close> other than 0, \<open>f\<close> is called exactly \<open>n * 2 * (a + 1)\<close> times, and every
  argument passed to \<open>f\<close> has the length of \<open>x\<close> and differs from \<open>x\<close> in at most one
  coordinate.
\<close>

theorem finite_gradient_evaluations:
  assumes "eps \<noteq> 0"
  shows "length (finite_gradient_calls x f grad0 accuracy eps) =
           length x * (2 * (acc_index accuracy + 1)) \<and>
         (\<forall>p \<in> set (finite_gradient_calls x f grad0 accuracy eps).
            length p = length x \<and> length (differing_coords x p) \<le> 1)"
proof -
  let ?a = "acc_index accuracy"
  let ?cs = "concat (map (\<lambda>d. map (stencil_point x ?a eps d) [0..<2 * (?a + 1)]) [0..<length x])"
  have calls: "finite_gradient_calls x f grad0 accuracy eps = ?cs"
    by (simp add: finite_gradient_calls_def finite_gradient_run_eq)
  have "length ?cs = length x * (2 * (?a + 1))"
    by (rule length_concat_map_const) simp
  moreover have "length p = length x \<and> length (differing_coords x p) \<le> 1" if "p \<in> set ?cs" for p
  proof -
    from that obtain d s where p: "p = stencil_point x ?a eps d s"
      by auto
    have "length (filter (\<lambda>i. p ! i \<noteq> x ! i) [0..<length x]) \<le> 1"
    proof (rule filter_at_most_one)
      show "distinct [0..<length x]" by simp
    next
      fix i
      assume "i \<in> set [0..<length x]" and "p ! i \<noteq> x ! i"
      then show "i = d"
        unfolding p stencil_point_def by (cases "i = d") simp_all
    qed
    then show ?thesis
      by (simp add: p stencil_point_def differing_coords_def)
  qed
  ultimately show ?thesis
    unfolding calls by blast
qed

theorem finite_gradient_evaluations_witness:
  "(1 / 2 :: real) \<noteq> 0 \<and>
   length (finite_gradient_calls [1, 2] sum_squares [] Order4 (1 / 2)) = 8 \<and>
   [1, 3] \<in> set (finite_gradient_calls [1, 2] sum_squares [] Order4 (1 / 2)) \<and>
   length (differing_coords [1, 2] [1, 3]) \<le> 1"
proof -
  have h: "(1 / 2 :: real) \<noteq> 0" by simp
  have mem: "[1, 3] \<in> set (finite_gradient_calls [1, 2] sum_squares [] Order4 (1 / 2))"
    by (simp add: finite_gradient_calls_def finite_gradient_run_eq stencil_point_def
        coeff2_def upt_rec)
  from finite_gradient_evaluations [OF h, of "[1, 2]" sum_squares "[]" Order4] mem
  show ?thesis by auto
qed

subsection \<open>The Hessian\<close>

lemma shift_commute: "shift (shift x i e) j e = shift (shift x j e) i e"
proof (cases "i = j")
  case True
  then show ?thesis by simp
next
  case False
  then show ?thesis by (simp add: shift_def list_update_swap)
qed

lemma mixed_difference_commute: "mixed_difference x f eps i j = mixed_difference x f eps j i"
  by (simp add: mixed_difference_def shift_commute [of x i eps j])




text \<open>
  Claim C10.  For a function \<open>f\<close>, a point \<open>x\<close> and \<open>eps\<close> other than 0, the matrix returned
  by \<open>finite_hessian\<close> is symmetric in exact arithmetic: entry \<open>(i, j)\<close> equals entry
  \<open>(j, i)\<close>.
\<close>

theorem finite_hessian_symmetric:
  assumes "eps \<noteq> 0"
  shows "\<forall>i<length x. \<forall>j<length x.
           mcoeff (finite_hessian x f hess0 eps) i j = mcoeff (finite_hessian x f hess0 eps) j i"
  by (simp add: finite_hessian_def finite_hessian_run_eq mixed_difference_commute [of x f eps])

theorem finite_hessian_symmetric_witness:
  "(1 :: real) \<noteq> 0 \<and>
   mcoeff (finite_hessian [1, 2] prod_list mat_empty 1) 0 1 =
   mcoeff (finite_hessian [1, 2] prod_list mat_empty 1) 1 0"
proof -
  have h: "(1 :: real) \<noteq> 0" by simp
  from finite_hessian_symmetric [OF h, of "[1, 2]" prod_list mat_empty, rule_format, of 0 1]
  show ?thesis by simp
qed

subsection \<open>The Jacobian\<close>



subsection \<open>The stencil tables\<close>




subsection \<open>The input point\<close>







subsection \<open>The comparators\<close>



text \<open>
  Claim C5, amended.  When assertions are enabled (\<open>NDEBUG\<close> is not defined), a call of
  \<open>compare_gradient\<close> or \<open>compare_jacobian\<close> with inputs of different shapes ends at the
  failed \<open>assert\<close>, before any element is read.
\<close>

theorem compare_shape_mismatch:
  "(\<not> ndebug \<and> length x \<noteq> length y \<longrightarrow>
      compare_gradient ndebug x y tol msg = Inl AssertionFailed) \<and>
   (\<not> ndebug \<and> (mrows X \<noteq> mrows Y \<or> mcols X \<noteq> mcols Y) \<longrightarrow>
      compare_jacobian ndebug X Y tol msg = Inl AssertionFailed)"
  by (simp add: compare_gradient_def compare_jacobian_def)

theorem compare_shape_mismatch_witness:
  "compare_gradient False [1, 2, 3] [1, 2, 3, 4] 0 ''grad'' = Inl AssertionFailed \<and>
   compare_jacobian False (mat_of_rows [[1, 2]]) (mat_of_rows [[1], [2]]) 0 ''jac''
     = Inl AssertionFailed"
  using compare_shape_mismatch [where ndebug = False and x = "[1, 2, 3]" and y = "[1, 2, 3, 4]"
      and X = "mat_of_rows [[1, 2]]" and Y = "mat_of_rows [[1], [2]]" and tol = 0
      and msg = "''grad''"]
    compare_shape_mismatch [where ndebug = False and x = "[1, 2, 3]" and y = "[1, 2, 3, 4]"
      and X = "mat_of_rows [[1, 2]]" and Y = "mat_of_rows [[1], [2]]" and tol = 0
      and msg = "''jac''"]
  by (simp add: mat_of_rows_def)

text \<open>
  The claim as it was stated fails when \<open>NDEBUG\<close> is defined: the \<open>assert\<close> is compiled
  out, the loop runs over the three rows of \<open>x\<close>, and the comparison of a 3-vector with a
  4-vector returns true without looking at the fourth element.
\<close>

theorem compare_gradient_ignores_extra_rows:
  "compare_gradient True [1, 2, 3] [1, 2, 3, 4] 0 ''grad'' = Inr \<lparr>cs_same = True, cs_log = []\<rparr>"
  by (simp add: compare_gradient_def compare_gradient_body_def upt_rec)

text \<open>
  In the same build a shorter \<open>y\<close> is read out of range: the model's loop stops there.
\<close>

lemma compare_gradient_reads_out_of_range:
  assumes "length y < length x"
  shows "compare_gradient True x y tol msg = Inl OutOfRange"
proof -
  obtain st where run: "for_loop [0..<length y] (compare_gradient_body x y tol msg)
      \<lparr>cs_same = True, cs_log = []\<rparr> = Inr st"
    using compare_gradient_loop [OF order_refl, where x = x and y = y and test_eps = tol
        and msg = msg and st = "\<lparr>cs_same = True, cs_log = []\<rparr>"]
    by blast
  have split: "[0..<length x] = [0..<length y] @ length y # [Suc (length y)..<length x]"
    using assms by (metis less_imp_le_nat upt_add_eq_append le_add_diff_inverse upt_conv_Cons
        add_0 zero_le)
  have "compare_gradient_body x y tol msg (length y) st = Inl OutOfRange"
    by (simp add: compare_gradient_body_def)
  then show ?thesis
    by (simp add: compare_gradient_def split for_loop_append run)
qed

text \<open>
  Claim C9.  For all matrices \<open>x\<close> and \<open>y\<close>, every tolerance and every label,
  \<open>compare_hessian\<close> returns what \<open>compare_jacobian\<close> returns on the same arguments.
\<close>

theorem compare_hessian_delegates:
  "compare_hessian ndebug x y tol msg = compare_jacobian ndebug x y tol msg"
  by (simp add: compare_hessian_def)

theorem compare_hessian_delegates_witness:
  "compare_hessian False (mat_of_rows [[2, 0], [0, 2]]) (mat_of_rows [[2, 0], [1, 2]]) 0 ''hess'' =
   compare_jacobian False (mat_of_rows [[2, 0], [0, 2]]) (mat_of_rows [[2, 0], [1, 2]]) 0 ''hess''"
  by (rule compare_hessian_delegates)

end
